theory Spec2Isabelle
  imports Main "HOL-Library.AList"
begin

section \<open>Data model\<close>

text \<open>
  The plugin store (\<^verbatim>\<open>store.ts\<close>) keeps one module-level object \<^verbatim>\<open>plugins\<close> that maps a
  plugin name to a \<^verbatim>\<open>Plugin\<close> instance. The object is modelled as the association list
  of its own enumerable properties: assigning to a key that exists replaces the value
  in place, assigning to a new key appends, \<^verbatim>\<open>delete\<close> drops the key. The list is in the
  order of insertion, which is the order of enumeration for names that are not array
  indices (those an engine enumerates first, in ascending order). Two property names do
  not behave as keys of a dictionary, and are modelled as they behave: an assignment to
  \<^verbatim>\<open>__proto__\<close> (see \<open>js_assign\<close>) and an own property \<^verbatim>\<open>hasOwnProperty\<close> (see \<open>getPlugin\<close>).
\<close>

datatype listener = persistPlugins_cb | other_cb nat

text \<open>
  Modelled from the spec: the class \<^verbatim>\<open>Plugin\<close> (imported from \<^verbatim>\<open>./Plugin\<close>) is not among the
  sources. The fields are those of the spec's Plugin Record; the store reads them as
  \<^verbatim>\<open>name\<close>, \<^verbatim>\<open>_active\<close>, \<^verbatim>\<open>_toUninstall\<close>, \<^verbatim>\<open>_listeners\<close> and \<^verbatim>\<open>dependencies\<close>.
\<close>

record plugin =
  name :: string
  source :: string
  active :: bool
  toUninstall :: bool
  listeners :: "listener list"
  dependencies :: "string list"

text \<open>
  Modelled from the spec: \<^verbatim>\<open>new Plugin()\<close> without arguments gives a blank record, inactive,
  not marked for removal, with no listener and no resolved dependency.
\<close>

definition Plugin_new :: plugin where
  "Plugin_new = \<lparr>name = [], source = [], active = False, toUninstall = False,
     listeners = [], dependencies = []\<rparr>"

text \<open>
  Modelled from the spec: \<^verbatim>\<open>plugin.subscribe(cb)\<close> adds a callback to the listeners of the
  record.
\<close>

definition subscribe :: "listener \<Rightarrow> plugin \<Rightarrow> plugin" where
  "subscribe cb p = p\<lparr>listeners := listeners p @ [cb]\<rparr>"

text \<open>
  What \<^verbatim>\<open>persistPlugins\<close> writes for one plugin: the object rest
  \<^verbatim>\<open>const { _listeners, dependencies, ...plugin } = plugins[name]\<close>, that is every field but
  the two named ones.
\<close>

record entry =
  e_name :: string
  e_source :: string
  e_active :: bool
  e_toUninstall :: bool

text \<open>
  A value of the parsed \<^verbatim>\<open>plugins.json\<close>: \<^verbatim>\<open>null\<close>, or an object with the persisted fields.
  The file itself is absent, unparsable, or a JSON object from keys to such values.
\<close>

datatype jentry = JNull | JObject entry

datatype json_file = Unparsable | Json "(string \<times> jentry) list"

text \<open>
  What is thrown: an \<^verbatim>\<open>Error\<close> with its message, the TypeError and SyntaxError of the
  language, the ENOENT of the file system with the path it names, and the two error
  kinds of the spec that have no message in the sources (they occur only in the part
  modelled from the spec).
\<close>

datatype error = Error string | TypeError | SyntaxError | ENOENT string
  | InstallRejected | FetchFailed

text \<open>The error kinds of the spec, as the messages the code throws.\<close>

definition NotFound :: "string \<Rightarrow> error" where
  "NotFound nm = Error (''Plugin '' @ nm @ '' does not exist'')"

definition LoadCorrupted :: error where
  "LoadCorrupted = Error (''Could not successfully rebuild list of installed plugins. ''
     @ ''Please check the plugins.json file in the plugins folder'')"

definition PathRequired :: error where
  "PathRequired = Error ''A path to the plugins folder is required to use Pluggable Electron''"

definition NotConfigured :: error where
  "NotConfigured = Error (''The facade.confirmInstall callback needs to be set ''
     @ ''in when initializing Pluggable Electron in the main process.'')"

text \<open>
  What a call of the install confirmer evaluates to: a boolean, or an \<^verbatim>\<open>Error\<close> object that
  is returned as a value (not thrown).
\<close>

datatype confirm_result = Proceed bool | ErrorValue string

section \<open>Paths\<close>

text \<open>
  \<^verbatim>\<open>path.normalize\<close> of Node.js, in its POSIX form: the path is cut at the slashes, empty
  segments and \<^verbatim>\<open>.\<close> are dropped, \<^verbatim>\<open>..\<close> removes the segment before it (and is kept only in
  a relative path that has nothing left to remove), a leading and a trailing slash are
  kept. \<open>split_sep\<close> is \<^verbatim>\<open>split('/')\<close> and \<open>join_sep\<close> is \<^verbatim>\<open>join('/')\<close>.
\<close>

fun split_sep :: "string \<Rightarrow> string list" where
  "split_sep [] = [[]]"
| "split_sep (c # cs) =
     (if c = CHR ''/'' then [] # split_sep cs
      else (case split_sep cs of [] \<Rightarrow> [[c]] | seg # segs \<Rightarrow> (c # seg) # segs))"

fun join_sep :: "string list \<Rightarrow> string" where
  "join_sep [] = []"
| "join_sep [seg] = seg"
| "join_sep (seg # segs) = seg @ CHR ''/'' # join_sep segs"

fun normalizeString :: "bool \<Rightarrow> string list \<Rightarrow> string list \<Rightarrow> string list" where
  "normalizeString allowAboveRoot res [] = res"
| "normalizeString allowAboveRoot res (seg # segs) =
     (if seg = [] \<or> seg = ''.'' then normalizeString allowAboveRoot res segs
      else if seg = ''..'' then
        (if res \<noteq> [] \<and> last res \<noteq> ''..'' then normalizeString allowAboveRoot (butlast res) segs
         else if allowAboveRoot then normalizeString allowAboveRoot (res @ [''..'']) segs
         else normalizeString allowAboveRoot res segs)
      else normalizeString allowAboveRoot (res @ [seg]) segs)"

definition normalize_path :: "string \<Rightarrow> string" where
  "normalize_path p =
     (if p = [] then ''.''
      else
        (let isAbsolute = (hd p = CHR ''/'');
             trailingSeparator = (last p = CHR ''/'');
             q = join_sep (normalizeString (\<not> isAbsolute) [] (split_sep p))
         in if q = [] then (if isAbsolute then ''/'' else if trailingSeparator then ''./'' else ''.'')
            else (let q' = (if trailingSeparator then q @ ''/'' else q)
                  in if isAbsolute then CHR ''/'' # q' else q')))"

text \<open>
  \<^verbatim>\<open>path.resolve(root, nm)\<close> of Node.js, in its POSIX form, in a process whose working
  directory is \<open>cwd\<close>: the arguments are taken from the right, empty ones skipped, each
  put before what is there with a slash, until the path is absolute; the working
  directory comes last. The result is normalised and has no trailing slash.
\<close>

definition resolve :: "string \<Rightarrow> string \<Rightarrow> string \<Rightarrow> string" where
  "resolve cwd root nm =
     (let p1 = (if nm = [] then [] else nm @ ''/'');
          p2 = (if p1 \<noteq> [] \<and> hd p1 = CHR ''/'' then p1
                else if root = [] then p1 else root @ ''/'' @ p1);
          p3 = (if p2 \<noteq> [] \<and> hd p2 = CHR ''/'' then p2
                else if cwd = [] then p2 else cwd @ ''/'' @ p2);
          resolvedAbsolute = (p3 \<noteq> [] \<and> hd p3 = CHR ''/'');
          q = join_sep (normalizeString (\<not> resolvedAbsolute) [] (split_sep p3))
      in if resolvedAbsolute then CHR ''/'' # q else if q \<noteq> [] then q else ''.'')"

text \<open>
  \<open>beneath dir q\<close>: the path \<open>q\<close> is the folder \<open>dir\<close> or lies inside it (both absolute
  and normalised, as \<open>resolve\<close> gives them).
\<close>

definition slashed :: "string \<Rightarrow> string" where
  "slashed dir = (if dir \<noteq> [] \<and> last dir = CHR ''/'' then dir else dir @ ''/'')"

definition beneath :: "string \<Rightarrow> string \<Rightarrow> bool" where
  "beneath dir q = (q = dir \<or> take (length (slashed dir)) q = slashed dir)"

section \<open>The state\<close>

text \<open>
  The state the modules share: the \<^verbatim>\<open>plugins\<close> object and \<^verbatim>\<open>confirmInstall\<close> of the store,
  \<^verbatim>\<open>pluginsPath\<close> of the globals (the empty string stands for every falsy value, which is
  all that \<^verbatim>\<open>usePlugins\<close> tests), the JSON files on disk by the path they are opened with,
  the log of the writes of \<^verbatim>\<open>writeFileSync\<close> (oldest first), the folders that exist on
  disk (absolute, normalised paths) and the working directory of the process.
\<close>

record world =
  plugins :: "(string \<times> plugin) list"
  confirmInstall :: "string \<Rightarrow> confirm_result"
  pluginsPath :: string
  files :: "string \<Rightarrow> json_file option"
  written :: "(string \<times> (string \<times> entry) list) list"
  folders :: "string list"
  cwd :: string

section \<open>The store\<close>

text \<open>
  Modelled from the spec: \<^verbatim>\<open>getPluginsFile\<close> and \<^verbatim>\<open>setPluginsPath\<close> of \<^verbatim>\<open>./globals\<close> are not
  among the sources. The registry file is a single file under the plugins root, and
  setting the path stores the active plugins root.
\<close>

definition getPluginsFile :: "world \<Rightarrow> string" where
  "getPluginsFile w = pluginsPath w @ ''/plugins.json''"

definition setPluginsPath :: "string \<Rightarrow> world \<Rightarrow> world" where
  "setPluginsPath p w = w\<lparr>pluginsPath := p\<rparr>"

text \<open>
  \<^verbatim>\<open>getPlugin\<close> asks \<^verbatim>\<open>plugins.hasOwnProperty(name)\<close>. The method is looked up on the registry
  object itself: when a record is stored under the name \<^verbatim>\<open>hasOwnProperty\<close>, that record is
  what the lookup finds, it is not a function, and the call throws a TypeError whatever
  \<^verbatim>\<open>name\<close> is.
\<close>

definition getPlugin :: "string \<Rightarrow> world \<Rightarrow> (error + plugin) \<times> world" where
  "getPlugin nm w =
     (if ''hasOwnProperty'' \<in> fst ` set (plugins w) then (Inl TypeError, w)
      else case map_of (plugins w) nm of
             None \<Rightarrow> (Inl (NotFound nm), w)
           | Some p \<Rightarrow> (Inr p, w))"

definition getAllPlugins :: "world \<Rightarrow> plugin list" where
  "getAllPlugins w = map snd (plugins w)"

definition getActivePlugins :: "world \<Rightarrow> plugin list" where
  "getActivePlugins w = filter (\<lambda>plugin. active plugin) (map snd (plugins w))"

definition strip :: "plugin \<Rightarrow> entry" where
  "strip p = \<lparr>e_name = name p, e_source = source p, e_active = active p,
     e_toUninstall = toUninstall p\<rparr>"

definition persistData :: "world \<Rightarrow> (string \<times> entry) list" where
  "persistData w = map (\<lambda>(nm, p). (nm, strip p)) (plugins w)"

text \<open>
  \<^verbatim>\<open>JSON.stringify\<close> followed by a later \<^verbatim>\<open>JSON.parse\<close> gives the same keys and field
  values back, so the file holds the data itself.
\<close>

definition persistPlugins :: "world \<Rightarrow> world" where
  "persistPlugins w =
     w\<lparr>files := (files w)(getPluginsFile w \<mapsto> Json (map (\<lambda>(nm, e). (nm, JObject e)) (persistData w))),
       written := written w @ [(getPluginsFile w, persistData w)]\<rparr>"

text \<open>
  The operator \<^verbatim>\<open>delete obj[k]\<close>: it removes the own property if there is one, and
  evaluates to \<^verbatim>\<open>true\<close> whether or not there was one.
\<close>

definition js_delete :: "string \<Rightarrow> (string \<times> 'v) list \<Rightarrow> bool \<times> (string \<times> 'v) list" where
  "js_delete k obj = (True, AList.delete k obj)"

definition removePlugin :: "string \<Rightarrow> bool \<Rightarrow> world \<Rightarrow> bool \<times> world" where
  "removePlugin nm persist w =
     (let (del, obj) = js_delete nm (plugins w);
          w1 = w\<lparr>plugins := obj\<rparr>;
          w2 = (if persist then persistPlugins w1 else w1)
      in (del, w2))"

text \<open>
  The assignment \<^verbatim>\<open>obj[k] = v\<close> on a plain object. For the key \<^verbatim>\<open>__proto__\<close>, unless it is an
  own property already, the assignment runs the inherited setter: it replaces the
  prototype of the object and creates no own property, so nothing is stored. The
  prototype itself is not part of the state modelled here.
\<close>

definition js_assign :: "string \<Rightarrow> 'v \<Rightarrow> (string \<times> 'v) list \<Rightarrow> (string \<times> 'v) list" where
  "js_assign k v obj =
     (if k = ''__proto__'' \<and> k \<notin> fst ` set obj then obj else AList.update k v obj)"

text \<open>
  \<^verbatim>\<open>addPlugin\<close> stores the object, maybe persists, then subscribes \<^verbatim>\<open>persistPlugins\<close> on
  it; the stored object is the one subscribed on, so the registry holds the record with
  the callback, and the file (written before) never holds listeners anyway.
\<close>

definition addPlugin :: "plugin \<Rightarrow> bool \<Rightarrow> world \<Rightarrow> world" where
  "addPlugin plugin persist w =
     (let w1 = w\<lparr>plugins := js_assign (name plugin) plugin (plugins w)\<rparr>;
          w2 = (if persist then persistPlugins w1 else w1)
      in w2\<lparr>plugins := js_assign (name plugin) (subscribe persistPlugins_cb plugin) (plugins w2)\<rparr>)"

text \<open>
  \<^verbatim>\<open>installPlugin\<close> builds a plugin with \<^verbatim>\<open>new Plugin(spec, options)\<close> and awaits its
  \<^verbatim>\<open>_install()\<close>; both belong to the class that is not among the sources, so together
  they are the parameter \<open>install_step\<close>, which may read and change the whole state
  and either throws or leaves the installed plugin.
\<close>

definition installPlugin ::
  "(string \<Rightarrow> 'o \<Rightarrow> world \<Rightarrow> (error + plugin) \<times> world) \<Rightarrow>
     string \<Rightarrow> 'o \<Rightarrow> bool \<Rightarrow> world \<Rightarrow> (error + plugin) \<times> world" where
  "installPlugin install_step spec options store w =
     (case install_step spec options w of
        (Inl err, w1) \<Rightarrow> (Inl err, w1)
      | (Inr plugin, w1) \<Rightarrow>
          (if store then (Inr (subscribe persistPlugins_cb plugin), addPlugin plugin True w1)
           else (Inr plugin, w1)))"

definition confirmInstall_default :: "string \<Rightarrow> confirm_result" where
  "confirmInstall_default plg = ErrorValue (''The facade.confirmInstall callback needs to be set ''
     @ ''in when initializing Pluggable Electron in the main process.'')"

definition setConfirmInstall :: "(string \<Rightarrow> confirm_result) \<Rightarrow> world \<Rightarrow> world" where
  "setConfirmInstall cb w = w\<lparr>confirmInstall := cb\<rparr>"

text \<open>
  Modelled from the spec: the class \<^verbatim>\<open>Plugin\<close>, whose constructor and \<^verbatim>\<open>_install\<close> method
  \<^verbatim>\<open>installPlugin\<close> calls, is not among the sources. The install step follows the spec
  (4.2, 6 and 8): the confirmer must be configured before any install is accepted and
  decides whether to proceed with the installation, so it is asked about the specifier
  first; when it gives an error (the confirmer that was never set returns one) the
  install fails with that error, when it gives false the install fails with
  InstallRejected; then the package-fetch collaborator, the parameter \<open>fetch\<close>, either
  fails (FetchFailed) or gives the name of the package, and the new record is inactive.
  No step changes the state.
\<close>

definition Plugin_install ::
  "(string \<Rightarrow> 'o \<Rightarrow> string option) \<Rightarrow> string \<Rightarrow> 'o \<Rightarrow> world \<Rightarrow> (error + plugin) \<times> world" where
  "Plugin_install fetch spec options w =
     (case confirmInstall w spec of
        ErrorValue msg \<Rightarrow> (Inl (Error msg), w)
      | Proceed ok \<Rightarrow>
          (if \<not> ok then (Inl InstallRejected, w)
           else (case fetch spec options of
                   None \<Rightarrow> (Inl FetchFailed, w)
                 | Some nm \<Rightarrow> (Inr (Plugin_new\<lparr>name := nm, source := spec, active := False\<rparr>), w))))"

text \<open>
  The state of a fresh process: nothing registered, no confirmer and no path set,
  nothing on disk, the root as working directory.
\<close>

definition initial_world :: world where
  "initial_world = \<lparr>plugins = [], confirmInstall = confirmInstall_default, pluginsPath = [],
     files = Map.empty, written = [], folders = [], cwd = ''/''\<rparr>"

section \<open>The plugin manager\<close>

text \<open>
  \<^verbatim>\<open>rmdirSync(p, { recursive: true })\<close>: the folder and everything inside it is removed,
  files with it; when nothing exists at the path the call throws ENOENT (Node.js 16 and
  later) and nothing changes. A file is inside the folder by its absolute path.
\<close>

definition rmdirSync_recursive :: "string \<Rightarrow> world \<Rightarrow> (error + unit) \<times> world" where
  "rmdirSync_recursive p w =
     (if p \<in> set (folders w)
      then (Inr (), w\<lparr>folders := filter (\<lambda>q. \<not> beneath p q) (folders w),
                       files := (\<lambda>f. if beneath p (resolve (cwd w) f []) then None else files w f)\<rparr>)
      else (Inl (ENOENT p), w))"

text \<open>
  \<^verbatim>\<open>loadPlugin\<close>: reading \<^verbatim>\<open>plg._toUninstall\<close> of \<^verbatim>\<open>null\<close> throws a TypeError; a marked entry
  has the folder \<^verbatim>\<open>resolve(pluginsPath, plg.name)\<close> removed; any other entry has its keys
  copied onto a blank plugin, which is added without persisting.
\<close>

definition revive :: "entry \<Rightarrow> plugin" where
  "revive plg = Plugin_new\<lparr>name := e_name plg, source := e_source plg, active := e_active plg,
     toUninstall := e_toUninstall plg\<rparr>"

fun loadPlugin :: "jentry \<Rightarrow> world \<Rightarrow> (error + unit) \<times> world" where
  "loadPlugin JNull w = (Inl TypeError, w)"
| "loadPlugin (JObject plg) w =
     (if e_toUninstall plg
      then (let plgPath = resolve (cwd w) (pluginsPath w) (e_name plg)
            in rmdirSync_recursive plgPath w)
      else (Inr (), addPlugin (revive plg) False w))"

text \<open>The loop \<^verbatim>\<open>for (const p in plugins) loadPlugin(plugins[p])\<close>; a throw leaves it.\<close>

fun loadPlugins :: "jentry list \<Rightarrow> world \<Rightarrow> (error + unit) \<times> world" where
  "loadPlugins [] w = (Inr (), w)"
| "loadPlugins (plg # rest) w =
     (case loadPlugin plg w of
        (Inl err, w1) \<Rightarrow> (Inl err, w1)
      | (Inr u, w1) \<Rightarrow> loadPlugins rest w1)"

text \<open>
  The loop \<^verbatim>\<open>for (const plugin of _getAllPlugins()) removePlugin(plugin.name, false)\<close>, over
  the array taken before the first removal.
\<close>

fun removePlugins :: "plugin list \<Rightarrow> world \<Rightarrow> world" where
  "removePlugins [] w = w"
| "removePlugins (plugin # rest) w = removePlugins rest (snd (removePlugin (name plugin) False w))"

text \<open>
  \<^verbatim>\<open>usePlugins\<close>; the object of lifecycle functions it returns is modelled as \<open>()\<close>.
  \<^verbatim>\<open>JSON.parse\<close> stands before the \<^verbatim>\<open>try\<close>, so its SyntaxError is not rewritten; whatever
  is thrown inside the \<^verbatim>\<open>try\<close> is replaced by the one descriptive error, and the state is
  left as it was at the throw.
\<close>

definition usePlugins :: "string \<Rightarrow> world \<Rightarrow> (error + unit) \<times> world" where
  "usePlugins pp w =
     (if pp = [] \<and> pluginsPath w = [] then (Inl PathRequired, w)
      else if pp \<noteq> [] then
        (let w1 = setPluginsPath pp w;
             w2 = removePlugins (getAllPlugins w1) w1
         in case files w2 (getPluginsFile w2) of
              None \<Rightarrow> (Inr (), w2)
            | Some Unparsable \<Rightarrow> (Inl SyntaxError, w2)
            | Some (Json plgs) \<Rightarrow>
                (case loadPlugins (map snd plgs) w2 of
                   (Inl err, w3) \<Rightarrow> (Inl LoadCorrupted, w3)
                 | (Inr u, w3) \<Rightarrow> (Inr (), persistPlugins w3)))
      else (Inr (), w))"

section \<open>The plugin protocol\<close>

text \<open>
  The handler that \<^verbatim>\<open>registerPluginProtocol\<close> registers for the scheme \<^verbatim>\<open>plugin\<close>, as a
  function of the plugins path and the URL of the request. It has one way out, the
  callback with a path; \<open>Inl\<close> would be a refusal, and there is none.
\<close>

definition registerPluginProtocol_handler :: "string \<Rightarrow> string \<Rightarrow> error + string" where
  "registerPluginProtocol_handler root request_url =
     (let entry = drop 8 request_url;
          url = normalize_path (root @ entry)
      in Inr url)"

section \<open>Reachable registries and example states\<close>

text \<open>
  Every registry the operations build from the empty one keeps its keys distinct (it is
  an object) and stores each record under the record's own name (the only assignment is
  \<^verbatim>\<open>plugins[plugin.name] = plugin\<close>).
\<close>

definition registry_ok :: "world \<Rightarrow> bool" where
  "registry_ok w = (distinct (map fst (plugins w)) \<and> list_all (\<lambda>(k, p). name p = k) (plugins w))"

text \<open>
  The folders that loading the entries \<open>es\<close> in the state \<open>w\<close> asks to remove, in the order
  of the entries: one for each entry that is marked for removal.
\<close>

definition marked_folders :: "world \<Rightarrow> entry list \<Rightarrow> string list" where
  "marked_folders w es =
     map (\<lambda>e. resolve (cwd w) (pluginsPath w) (e_name e)) (filter e_toUninstall es)"

text \<open>
  The folders to remove are ready when each of them exists and none of them is an
  earlier one or lies inside an earlier one: then each still exists when its turn comes.
\<close>

definition folders_ready :: "world \<Rightarrow> entry list \<Rightarrow> bool" where
  "folders_ready w es =
     (set (marked_folders w es) \<subseteq> set (folders w)
      \<and> sorted_wrt (\<lambda>p q. \<not> beneath p q) (marked_folders w es))"

text \<open>
  A record as \<^verbatim>\<open>loadPlugin\<close> rebuilds it from its persisted fields: the two fields that are
  not persisted are those of a blank plugin, plus the callback \<^verbatim>\<open>addPlugin\<close> subscribes.
\<close>

definition reload :: "plugin \<Rightarrow> plugin" where
  "reload p = \<lparr>name = name p, source = source p, active = active p, toUninstall = False,
     listeners = [persistPlugins_cb], dependencies = []\<rparr>"

definition marked_plugin :: plugin where
  "marked_plugin = \<lparr>name = ''foo'', source = ''./foo'', active = True, toUninstall = True,
     listeners = [], dependencies = []\<rparr>"

definition foo_plugin :: plugin where
  "foo_plugin = \<lparr>name = ''foo'', source = ''./foo-2'', active = False, toUninstall = False,
     listeners = [], dependencies = [''bar'']\<rparr>"

definition plugin_a :: plugin where
  "plugin_a = \<lparr>name = ''a'', source = ''./a'', active = True, toUninstall = False,
     listeners = [other_cb 7], dependencies = [''left-pad'']\<rparr>"

definition shadow_plugin :: plugin where
  "shadow_plugin = \<lparr>name = ''hasOwnProperty'', source = ''./shadow'', active = False,
     toUninstall = False, listeners = [], dependencies = []\<rparr>"

definition marked_world :: world where
  "marked_world = initial_world\<lparr>plugins := [(''foo'', marked_plugin)]\<rparr>"

definition shadowed_world :: world where
  "shadowed_world = addPlugin shadow_plugin False marked_world"

definition entry_a :: entry where
  "entry_a = \<lparr>e_name = ''a'', e_source = ''./a'', e_active = True, e_toUninstall = False\<rparr>"

definition entry_gone :: entry where
  "entry_gone = \<lparr>e_name = ''gone'', e_source = ''./gone'', e_active = True, e_toUninstall = True\<rparr>"


text \<open>
  A plugins folder \<^verbatim>\<open>/p\<close> with the folders of three plugins in it, and the same path with
  nothing on disk.
\<close>

definition disk_world :: world where
  "disk_world = initial_world\<lparr>plugins := [(''foo'', marked_plugin)], pluginsPath := ''/p'',
     folders := [''/p'', ''/p/gone'', ''/p/gone/lib'', ''/p/a'', ''/p/foo'']\<rparr>"


definition two_world :: world where
  "two_world = initial_world\<lparr>plugins := [(''foo'', marked_plugin), (''a'', plugin_a)],
     pluginsPath := ''/p'', folders := [''/p'', ''/p/foo'', ''/p/foo/dist'', ''/p/a'']\<rparr>"

definition corrupt_world :: world where
  "corrupt_world = initial_world\<lparr>files :=
     [''/p/plugins.json'' \<mapsto>
        Json [(''gone'', JObject entry_gone), (''a'', JObject entry_a), (''b'', JNull)]],
     folders := [''/p'', ''/p/gone'', ''/p/a'']\<rparr>"

text \<open>A fetch that finds every package under its specifier, and a confirmer that refuses.\<close>

definition fetch_by_name :: "string \<Rightarrow> unit \<Rightarrow> string option" where
  "fetch_by_name spec options = Some spec"

definition reject_all :: "string \<Rightarrow> confirm_result" where
  "reject_all plg = Proceed False"

section \<open>Basic facts about the store\<close>

lemma plugins_persistPlugins [simp]: "plugins (persistPlugins w) = plugins w"
  by (simp add: persistPlugins_def)

lemma js_assign_twice: "js_assign k v' (js_assign k v obj) = js_assign k v' obj"
  by (auto simp add: js_assign_def dom_update)

lemma js_assign_present: "k \<in> fst ` set obj \<Longrightarrow> js_assign k v obj = AList.update k v obj"
  by (simp add: js_assign_def)

lemma js_assign_plain: "k \<noteq> ''__proto__'' \<Longrightarrow> js_assign k v obj = AList.update k v obj"
  by (simp add: js_assign_def)

lemma plugins_addPlugin:
  "plugins (addPlugin p persist w) = js_assign (name p) (subscribe persistPlugins_cb p) (plugins w)"
  by (simp add: addPlugin_def Let_def js_assign_twice)

lemma plugins_removePlugin:
  "plugins (snd (removePlugin nm persist w)) = AList.delete nm (plugins w)"
  by (simp add: removePlugin_def js_delete_def Let_def)

lemma update_fresh: "k \<notin> fst ` set al \<Longrightarrow> AList.update k v al = al @ [(k, v)]"
  by (induction al) auto

lemma list_all_update:
  "list_all P al \<Longrightarrow> P (k, v) \<Longrightarrow> list_all P (AList.update k v al)"
  by (induction al) auto

lemma list_all_delete: "list_all P al \<Longrightarrow> list_all P (AList.delete k al)"
  by (induction al) auto

lemma registry_ok_initial: "registry_ok initial_world"
  by (simp add: registry_ok_def initial_world_def)

lemma registry_ok_addPlugin: "registry_ok w \<Longrightarrow> registry_ok (addPlugin p persist w)"
  by (simp add: registry_ok_def plugins_addPlugin js_assign_def distinct_update list_all_update
      subscribe_def)

lemma registry_ok_removePlugin: "registry_ok w \<Longrightarrow> registry_ok (snd (removePlugin nm persist w))"
  by (simp add: registry_ok_def plugins_removePlugin distinct_delete list_all_delete)

lemma registry_ok_persistPlugins: "registry_ok w \<Longrightarrow> registry_ok (persistPlugins w)"
  by (simp add: registry_ok_def)

lemma registry_ok_removePlugins: "registry_ok w \<Longrightarrow> registry_ok (removePlugins ps w)"
  by (induction ps arbitrary: w) (simp_all add: registry_ok_removePlugin)

lemma plugins_rmdirSync_recursive: "plugins (snd (rmdirSync_recursive p w)) = plugins w"
  by (simp add: rmdirSync_recursive_def)

lemma registry_ok_loadPlugin: "registry_ok w \<Longrightarrow> registry_ok (snd (loadPlugin plg w))"
proof (cases plg)
  case JNull
  then show "registry_ok w \<Longrightarrow> registry_ok (snd (loadPlugin plg w))" by simp
next
  case (JObject e)
  then show "registry_ok w \<Longrightarrow> registry_ok (snd (loadPlugin plg w))"
    using registry_ok_addPlugin [of w "revive e" False]
    by (simp add: registry_ok_def plugins_rmdirSync_recursive)
qed

lemma registry_ok_loadPlugins: "registry_ok w \<Longrightarrow> registry_ok (snd (loadPlugins plgs w))"
proof (induction plgs arbitrary: w)
  case Nil
  then show ?case by simp
next
  case (Cons plg plgs)
  obtain r w1 where l: "loadPlugin plg w = (r, w1)" by (cases "loadPlugin plg w")
  with Cons.prems registry_ok_loadPlugin [of w plg] have "registry_ok w1" by simp
  with Cons.IH [of w1] l show ?case by (cases r) simp_all
qed

lemma registry_ok_usePlugins: "registry_ok w \<Longrightarrow> registry_ok (snd (usePlugins pp w))"
proof -
  assume ok: "registry_ok w"
  define w2 where "w2 = removePlugins (getAllPlugins (setPluginsPath pp w)) (setPluginsPath pp w)"
  from ok have "registry_ok (setPluginsPath pp w)"
    by (simp add: registry_ok_def setPluginsPath_def)
  then have ok2: "registry_ok w2"
    unfolding w2_def by (rule registry_ok_removePlugins)
  have ok3: "registry_ok (snd (loadPlugins plgs w2))" for plgs
    using ok2 by (rule registry_ok_loadPlugins)
  show "registry_ok (snd (usePlugins pp w))"
  proof (cases "files w2 (getPluginsFile w2)")
    case None
    with ok ok2 show ?thesis
      by (simp add: usePlugins_def Let_def w2_def [symmetric])
  next
    case (Some f)
    show ?thesis
    proof (cases f)
      case Unparsable
      with Some ok ok2 show ?thesis
        by (simp add: usePlugins_def Let_def w2_def [symmetric])
    next
      case (Json plgs)
      obtain r w3 where l: "loadPlugins (map snd plgs) w2 = (r, w3)"
        by (cases "loadPlugins (map snd plgs) w2")
      with ok3 [of "map snd plgs"] have "registry_ok w3" by simp
      with Some Json l ok show ?thesis
        by (cases r) (simp_all add: usePlugins_def Let_def w2_def [symmetric] registry_ok_persistPlugins)
    qed
  qed
qed

lemma filter_name_update:
  "distinct (map fst al) \<Longrightarrow> list_all (\<lambda>(k, p). name p = k) al \<Longrightarrow> name v = k \<Longrightarrow>
   k \<in> fst ` set al \<Longrightarrow>
   filter (\<lambda>q. name q = k) (map snd (AList.update k v al)) = [v]"
proof (induction al)
  case Nil
  then show ?case by simp
next
  case (Cons a al)
  obtain k' p' where a: "a = (k', p')" by (cases a)
  show ?case
  proof (cases "k' = k")
    case True
    with Cons.prems a have "k \<notin> fst ` set al" by auto
    with Cons.prems(2) have "filter (\<lambda>q. name q = k) (map snd al) = []"
      by (induction al) (auto simp add: image_iff)
    with True a Cons.prems show ?thesis by simp
  next
    case False
    with Cons a show ?thesis by auto
  qed
qed

section \<open>Reading the registry\<close>

text \<open>
  Claim C1, as the code has it: \<^verbatim>\<open>getActivePlugins\<close> returns exactly the stored records whose
  active flag is set, in the order of \<^verbatim>\<open>getAllPlugins\<close>; so it never returns a record
  whose active flag is false. The filter reads \<^verbatim>\<open>_active\<close> only and does not look at the
  removal mark.
\<close>

theorem getActivePlugins_filters_active:
  "getActivePlugins w = filter active (getAllPlugins w)
   \<and> (p \<in> set (getActivePlugins w) \<longleftrightarrow> p \<in> set (getAllPlugins w) \<and> active p)"
  by (auto simp add: getActivePlugins_def getAllPlugins_def)

text \<open>
  Claim C1 as stated fails: a record that is active and marked for removal (an activated
  plugin whose uninstall was deferred) is returned as active.
\<close>

theorem getActivePlugins_returns_marked:
  "getActivePlugins marked_world = [marked_plugin] \<and> toUninstall marked_plugin"
  by (simp add: getActivePlugins_def marked_world_def marked_plugin_def)

text \<open>
  For a registry that holds no record named \<^verbatim>\<open>hasOwnProperty\<close>, \<^verbatim>\<open>getPlugin\<close> is the lookup
  it is meant to be: the error that names the plugin for a name that is no key, the
  stored record for a name that is one, and the state is the one it was called in.
\<close>

lemma getPlugin_unshadowed:
  "''hasOwnProperty'' \<notin> fst ` set (plugins w) \<Longrightarrow>
   (nm \<notin> fst ` set (plugins w) \<longrightarrow>
      getPlugin nm w = (Inl (NotFound nm), w)
      \<and> NotFound nm = Error (''Plugin '' @ nm @ '' does not exist''))
   \<and> (\<forall>p. map_of (plugins w) nm = Some p \<longrightarrow> getPlugin nm w = (Inr p, w))"
proof -
  assume "''hasOwnProperty'' \<notin> fst ` set (plugins w)"
  then have g: "getPlugin nm w
      = (case map_of (plugins w) nm of None \<Rightarrow> (Inl (NotFound nm), w) | Some p \<Rightarrow> (Inr p, w))"
    by (simp add: getPlugin_def)
  show ?thesis
    by (auto simp add: g NotFound_def map_of_eq_None_iff [symmetric])
qed

text \<open>
  Claim C9 fails on the code once a record named \<^verbatim>\<open>hasOwnProperty\<close> is stored (\<^verbatim>\<open>addPlugin\<close>
  takes any name): in the registry that holds the records \<^verbatim>\<open>foo\<close> and \<^verbatim>\<open>hasOwnProperty\<close>,
  \<^verbatim>\<open>getPlugin\<close> throws a TypeError for the absent name \<^verbatim>\<open>bar\<close>, where the claim has the
  error that names the plugin, and for the present name \<^verbatim>\<open>foo\<close>, where the claim has
  the stored record.
\<close>

theorem getPlugin_shadowed_TypeError:
  "map fst (plugins shadowed_world) = [''foo'', ''hasOwnProperty'']
   \<and> getPlugin ''bar'' shadowed_world = (Inl TypeError, shadowed_world)
   \<and> getPlugin ''foo'' shadowed_world = (Inl TypeError, shadowed_world)"
proof -
  have keys: "map fst (plugins shadowed_world) = [''foo'', ''hasOwnProperty'']"
    by (simp add: shadowed_world_def plugins_addPlugin js_assign_def shadow_plugin_def
        marked_world_def)
  have "fst ` set (plugins shadowed_world) = set (map fst (plugins shadowed_world))"
    by simp
  then have "''hasOwnProperty'' \<in> fst ` set (plugins shadowed_world)"
    by (simp only: keys) simp
  with keys show ?thesis by (simp add: getPlugin_def)
qed

section \<open>Removing and adding\<close>

text \<open>
  Claim C6, as the code has it: \<^verbatim>\<open>removePlugin\<close> deletes the record of that name and leaves
  every other key as it was, and what it returns is the value of the \<^verbatim>\<open>delete\<close> operator,
  which is true in every case.
\<close>

theorem removePlugin_deletes_returns_true:
  "fst (removePlugin nm persist w) = True
   \<and> map_of (plugins (snd (removePlugin nm persist w))) = (map_of (plugins w))(nm := None)"
  by (simp add: plugins_removePlugin delete_conv') (simp add: removePlugin_def js_delete_def Let_def)

text \<open>
  Claim C6 as stated fails: removing a name from the empty registry returns true, though
  no entry existed.
\<close>

theorem removePlugin_absent_returns_true:
  "map_of (plugins initial_world) ''foo'' = None
   \<and> fst (removePlugin ''foo'' False initial_world) = True"
  by (simp add: initial_world_def removePlugin_def js_delete_def)

text \<open>
  Claim C10: \<^verbatim>\<open>removePlugin\<close> with \<^verbatim>\<open>persist = true\<close> always writes the registry file, once,
  with the registry as it is after the deletion; nothing in it asks whether the name was
  there.
\<close>

theorem removePlugin_persist_always_writes:
  "written (snd (removePlugin nm True w))
     = written w @ [(getPluginsFile w, map (\<lambda>(k, p). (k, strip p)) (AList.delete nm (plugins w)))]
   \<and> files (snd (removePlugin nm True w)) (getPluginsFile w)
     = Some (Json (map (\<lambda>(k, p). (k, JObject (strip p))) (AList.delete nm (plugins w))))"
  by (simp add: removePlugin_def js_delete_def Let_def persistPlugins_def persistData_def
      getPluginsFile_def split_def comp_def)

text \<open>
  Claim C7: in a registry as the operations build it, adding a record whose name is
  already a key leaves the new record (with the store's persistence callback subscribed)
  under that name, nothing of the old one; \<^verbatim>\<open>getAllPlugins\<close> then has exactly one record of
  that name, and as many records as before.
\<close>

theorem addPlugin_replaces:
  assumes "registry_ok w" and "name p \<in> fst ` set (plugins w)"
  shows "map_of (plugins (addPlugin p persist w)) (name p) = Some (subscribe persistPlugins_cb p)
    \<and> filter (\<lambda>q. name q = name p) (getAllPlugins (addPlugin p persist w))
        = [subscribe persistPlugins_cb p]
    \<and> length (getAllPlugins (addPlugin p persist w)) = length (getAllPlugins w)"
proof -
  have stored: "plugins (addPlugin p persist w)
      = AList.update (name p) (subscribe persistPlugins_cb p) (plugins w)"
    using assms(2) by (simp add: plugins_addPlugin js_assign_present)
  have 1: "map_of (plugins (addPlugin p persist w)) (name p) = Some (subscribe persistPlugins_cb p)"
    by (simp add: stored update_conv')
  have "name (subscribe persistPlugins_cb p) = name p" by (simp add: subscribe_def)
  with assms have 2: "filter (\<lambda>q. name q = name p) (getAllPlugins (addPlugin p persist w))
        = [subscribe persistPlugins_cb p]"
    by (simp add: getAllPlugins_def stored registry_ok_def filter_name_update)
  have "map fst (AList.update (name p) (subscribe persistPlugins_cb p) (plugins w)) = map fst (plugins w)"
    using assms(2) by (simp add: update_keys)
  then have "length (AList.update (name p) (subscribe persistPlugins_cb p) (plugins w)) = length (plugins w)"
    by (metis length_map)
  then have 3: "length (getAllPlugins (addPlugin p persist w)) = length (getAllPlugins w)"
    by (simp add: getAllPlugins_def stored)
  from 1 2 3 show ?thesis by simp
qed

theorem addPlugin_replaces_witness:
  "registry_ok marked_world \<and> name foo_plugin \<in> fst ` set (plugins marked_world)
   \<and> getAllPlugins (addPlugin foo_plugin True marked_world)
       = [\<lparr>name = ''foo'', source = ''./foo-2'', active = False, toUninstall = False,
           listeners = [persistPlugins_cb], dependencies = [''bar'']\<rparr>]"
proof -
  have ok: "registry_ok marked_world"
    by (simp add: registry_ok_def marked_world_def marked_plugin_def)
  have key: "name foo_plugin \<in> fst ` set (plugins marked_world)"
    by (simp add: marked_world_def foo_plugin_def)
  have one: "length (getAllPlugins marked_world) = 1"
    by (simp add: getAllPlugins_def marked_world_def)
  from addPlugin_replaces [OF ok key, of True] one
  have "filter (\<lambda>q. name q = name foo_plugin) (getAllPlugins (addPlugin foo_plugin True marked_world))
          = [subscribe persistPlugins_cb foo_plugin]
      \<and> length (getAllPlugins (addPlugin foo_plugin True marked_world)) = 1"
    by simp
  then have "getAllPlugins (addPlugin foo_plugin True marked_world) = [subscribe persistPlugins_cb foo_plugin]"
    by (cases "getAllPlugins (addPlugin foo_plugin True marked_world)") (auto split: if_splits)
  with ok key show ?thesis
    by (simp add: subscribe_def foo_plugin_def)
qed

section \<open>Loading\<close>

subsection \<open>What the loops leave unchanged\<close>

lemma addPlugin_frame:
  "folders (addPlugin p persist w) = folders w"
  "cwd (addPlugin p persist w) = cwd w"
  "pluginsPath (addPlugin p persist w) = pluginsPath w"
  "written (addPlugin p False w) = written w"
  "files (addPlugin p False w) = files w"
  by (simp_all add: addPlugin_def persistPlugins_def Let_def)

lemma rmdirSync_recursive_frame:
  "written (snd (rmdirSync_recursive p w)) = written w"
  "pluginsPath (snd (rmdirSync_recursive p w)) = pluginsPath w"
  "cwd (snd (rmdirSync_recursive p w)) = cwd w"
  by (simp_all add: rmdirSync_recursive_def)

lemma loadPlugin_frame:
  "written (snd (loadPlugin plg w)) = written w"
  "pluginsPath (snd (loadPlugin plg w)) = pluginsPath w"
  "cwd (snd (loadPlugin plg w)) = cwd w"
  by (cases plg; simp add: addPlugin_frame rmdirSync_recursive_frame Let_def)+

lemma loadPlugins_frame:
  "written (snd (loadPlugins plgs w)) = written w
   \<and> pluginsPath (snd (loadPlugins plgs w)) = pluginsPath w
   \<and> cwd (snd (loadPlugins plgs w)) = cwd w"
proof (induction plgs arbitrary: w)
  case Nil
  then show ?case by simp
next
  case (Cons plg plgs)
  show ?case
  proof (cases "loadPlugin plg w")
    case (Pair r w1)
    then have "written w1 = written w \<and> pluginsPath w1 = pluginsPath w \<and> cwd w1 = cwd w"
      using loadPlugin_frame [of plg w] by simp
    with Pair Cons.IH [of w1] show ?thesis
      by (cases r) simp_all
  qed
qed

lemma removePlugins_frame:
  "written (removePlugins ps w) = written w
   \<and> files (removePlugins ps w) = files w
   \<and> pluginsPath (removePlugins ps w) = pluginsPath w
   \<and> folders (removePlugins ps w) = folders w
   \<and> cwd (removePlugins ps w) = cwd w"
  by (induction ps arbitrary: w) (simp_all add: removePlugin_def js_delete_def)

lemma plugins_removePlugins:
  "plugins (removePlugins ps w) = fold AList.delete (map name ps) (plugins w)"
  by (induction ps arbitrary: w) (simp_all add: plugins_removePlugin)

lemma fold_delete_all: "fst ` set al \<subseteq> set ks \<Longrightarrow> fold AList.delete ks al = []"
proof (induction ks arbitrary: al)
  case Nil
  then show ?case by simp
next
  case (Cons k ks)
  have "fst ` set (AList.delete k al) \<subseteq> set ks"
    using Cons.prems by (auto simp add: AList.delete_eq)
  with Cons.IH show ?case by simp
qed

lemma names_are_keys: "list_all (\<lambda>(k, p). name p = k) al \<Longrightarrow> map name (map snd al) = map fst al"
  by (induction al) auto

lemma removePlugins_clears:
  "registry_ok w \<Longrightarrow> plugins (removePlugins (getAllPlugins w) w) = []"
  by (simp add: plugins_removePlugins getAllPlugins_def registry_ok_def names_are_keys
      fold_delete_all del: map_map)

subsection \<open>Removing the folders of marked entries\<close>


lemma marked_folders_same:
  "cwd w1 = cwd w \<Longrightarrow> pluginsPath w1 = pluginsPath w \<Longrightarrow> marked_folders w1 es = marked_folders w es"
  by (simp add: marked_folders_def)

lemma folders_ready_marked:
  assumes "folders_ready w (e # es)" and "e_toUninstall e"
  shows "resolve (cwd w) (pluginsPath w) (e_name e) \<in> set (folders w)"
    and "folders_ready (snd (rmdirSync_recursive (resolve (cwd w) (pluginsPath w) (e_name e)) w)) es"
proof -
  define F where "F = resolve (cwd w) (pluginsPath w) (e_name e)"
  define w1 where "w1 = snd (rmdirSync_recursive F w)"
  have mf: "marked_folders w (e # es) = F # marked_folders w es"
    using assms(2) by (simp add: marked_folders_def F_def)
  with assms(1) have inF: "F \<in> set (folders w)"
    and sub: "set (marked_folders w es) \<subseteq> set (folders w)"
    and apart: "\<forall>f \<in> set (marked_folders w es). \<not> beneath F f"
    and rest: "sorted_wrt (\<lambda>p q. \<not> beneath p q) (marked_folders w es)"
    by (simp_all add: folders_ready_def)
  have f1: "folders w1 = filter (\<lambda>q. \<not> beneath F q) (folders w)"
    using inF by (simp add: w1_def rmdirSync_recursive_def)
  have m1: "marked_folders w1 es = marked_folders w es"
    unfolding w1_def by (rule marked_folders_same) (simp_all add: rmdirSync_recursive_frame)
  have "set (marked_folders w1 es) \<subseteq> set (folders w1)"
    using sub apart by (auto simp add: m1 f1)
  with rest have "folders_ready w1 es"
    by (simp add: folders_ready_def m1)
  then show "folders_ready (snd (rmdirSync_recursive (resolve (cwd w) (pluginsPath w) (e_name e)) w)) es"
    by (simp add: w1_def F_def)
  from inF show "resolve (cwd w) (pluginsPath w) (e_name e) \<in> set (folders w)"
    by (simp add: F_def)
qed

lemma folders_ready_unmarked:
  assumes "folders_ready w (e # es)" and "\<not> e_toUninstall e"
  shows "folders_ready (addPlugin p persist w) es"
proof -
  have "marked_folders w (e # es) = marked_folders w es"
    using assms(2) by (simp add: marked_folders_def)
  moreover have "marked_folders (addPlugin p persist w) es = marked_folders w es"
    by (rule marked_folders_same) (simp_all add: addPlugin_frame)
  ultimately show ?thesis
    using assms(1) by (simp add: folders_ready_def addPlugin_frame)
qed

subsection \<open>The loading loop\<close>

lemma loadPlugins_append:
  "fst (loadPlugins xs w) = Inr () \<Longrightarrow>
   loadPlugins (xs @ ys) w = loadPlugins ys (snd (loadPlugins xs w))"
proof (induction xs arbitrary: w)
  case Nil
  then show ?case by simp
next
  case (Cons x xs)
  then show ?case
    by (cases "loadPlugin x w") (auto split: sum.splits)
qed

lemma loadPlugin_marked_present:
  "e_toUninstall e \<Longrightarrow> resolve (cwd w) (pluginsPath w) (e_name e) \<in> set (folders w) \<Longrightarrow>
   loadPlugin (JObject e) w
     = (Inr (), snd (rmdirSync_recursive (resolve (cwd w) (pluginsPath w) (e_name e)) w))"
  by (simp add: rmdirSync_recursive_def Let_def)

lemma loadPlugin_unmarked:
  "\<not> e_toUninstall e \<Longrightarrow> loadPlugin (JObject e) w = (Inr (), addPlugin (revive e) False w)"
  by simp

lemma loadPlugins_ready:
  "folders_ready w es \<Longrightarrow> fst (loadPlugins (map JObject es) w) = Inr ()"
proof (induction es arbitrary: w)
  case Nil
  then show ?case by simp
next
  case (Cons e es)
  show ?case
  proof (cases "e_toUninstall e")
    case True
    from folders_ready_marked [OF Cons.prems True] Cons.IH
    have "fst (loadPlugins (map JObject es)
        (snd (rmdirSync_recursive (resolve (cwd w) (pluginsPath w) (e_name e)) w))) = Inr ()"
      by simp
    with folders_ready_marked(1) [OF Cons.prems True] True show ?thesis
      by (simp add: loadPlugin_marked_present del: loadPlugin.simps)
  next
    case False
    from folders_ready_unmarked [OF Cons.prems False] Cons.IH
    have "fst (loadPlugins (map JObject es) (addPlugin (revive e) False w)) = Inr ()"
      by simp
    with False show ?thesis by simp
  qed
qed

lemma loadPlugins_folders:
  "folders_ready w es \<Longrightarrow>
   folders (snd (loadPlugins (map JObject es) w))
     = filter (\<lambda>q. list_all (\<lambda>f. \<not> beneath f q) (marked_folders w es)) (folders w)"
proof (induction es arbitrary: w)
  case Nil
  then show ?case by (simp add: marked_folders_def)
next
  case (Cons e es)
  show ?case
  proof (cases "e_toUninstall e")
    case True
    define F where "F = resolve (cwd w) (pluginsPath w) (e_name e)"
    define w1 where "w1 = snd (rmdirSync_recursive F w)"
    from folders_ready_marked [OF Cons.prems True]
    have inF: "F \<in> set (folders w)" and r1: "folders_ready w1 es"
      by (simp_all add: F_def w1_def)
    have f1: "folders w1 = filter (\<lambda>q. \<not> beneath F q) (folders w)"
      using inF by (simp add: w1_def rmdirSync_recursive_def)
    have m1: "marked_folders w1 es = marked_folders w es"
      unfolding w1_def by (rule marked_folders_same) (simp_all add: rmdirSync_recursive_frame)
    have mf: "marked_folders w (e # es) = F # marked_folders w es"
      using True by (simp add: marked_folders_def F_def)
    have step: "loadPlugin (JObject e) w = (Inr (), w1)"
      using True inF unfolding w1_def F_def by (rule loadPlugin_marked_present)
    have "folders (snd (loadPlugins (map JObject es) w1))
       = filter (\<lambda>q. list_all (\<lambda>f. \<not> beneath f q) (marked_folders w es)) (folders w1)"
      using Cons.IH [OF r1] by (simp add: m1)
    then show ?thesis
      by (simp add: step mf f1 conj_commute del: loadPlugin.simps)
  next
    case False
    define w1 where "w1 = addPlugin (revive e) False w"
    from folders_ready_unmarked [OF Cons.prems False]
    have r1: "folders_ready w1 es" by (simp add: w1_def)
    have m1: "marked_folders w1 es = marked_folders w es"
      unfolding w1_def by (rule marked_folders_same) (simp_all add: addPlugin_frame)
    have mf: "marked_folders w (e # es) = marked_folders w es"
      using False by (simp add: marked_folders_def)
    have "folders (snd (loadPlugins (map JObject es) w1))
       = filter (\<lambda>q. list_all (\<lambda>f. \<not> beneath f q) (marked_folders w es)) (folders w)"
      using Cons.IH [OF r1] by (simp add: m1) (simp add: w1_def addPlugin_frame)
    with False show ?thesis
      by (simp add: mf w1_def)
  qed
qed

lemma loadPlugins_keys:
  "folders_ready w es \<Longrightarrow>
   fst ` set (plugins w) \<union> {e_name e | e. e \<in> set es \<and> \<not> e_toUninstall e \<and> e_name e \<noteq> ''__proto__''}
     \<subseteq> fst ` set (plugins (snd (loadPlugins (map JObject es) w)))"
proof (induction es arbitrary: w)
  case Nil
  then show ?case by simp
next
  case (Cons e es)
  show ?case
  proof (cases "e_toUninstall e")
    case True
    define w1 where "w1 = snd (rmdirSync_recursive (resolve (cwd w) (pluginsPath w) (e_name e)) w)"
    from folders_ready_marked [OF Cons.prems True]
    have inF: "resolve (cwd w) (pluginsPath w) (e_name e) \<in> set (folders w)"
      and r1: "folders_ready w1 es"
      by (simp_all add: w1_def)
    have step: "loadPlugin (JObject e) w = (Inr (), w1)"
      using True inF unfolding w1_def by (rule loadPlugin_marked_present)
    have p1: "plugins w1 = plugins w"
      by (simp add: w1_def plugins_rmdirSync_recursive)
    from Cons.IH [OF r1] p1 True show ?thesis
      by (auto simp add: step simp del: loadPlugin.simps)
  next
    case False
    define w1 where "w1 = addPlugin (revive e) False w"
    from folders_ready_unmarked [OF Cons.prems False]
    have r1: "folders_ready w1 es" by (simp add: w1_def)
    have step: "loadPlugin (JObject e) w = (Inr (), w1)"
      using False by (simp add: w1_def)
    have nm: "name (revive e) = e_name e"
      by (simp add: revive_def Plugin_new_def)
    have grow: "fst ` set (plugins w) \<subseteq> fst ` set (plugins w1)"
      by (auto simp add: w1_def plugins_addPlugin js_assign_def dom_update)
    have new: "e_name e \<in> fst ` set (plugins w1)" if "e_name e \<noteq> ''__proto__''"
      using that by (simp add: w1_def plugins_addPlugin nm js_assign_plain dom_update)
    from Cons.IH [OF r1] grow new show ?thesis
      by (auto simp add: step simp del: loadPlugin.simps)
  qed
qed

lemma loadPlugins_persisted:
  assumes "distinct (map fst xs)" and "list_all (\<lambda>(k, p). name p = k) xs"
    and "fst ` set xs \<inter> fst ` set (plugins w) = {}"
    and "''__proto__'' \<notin> fst ` set xs"
    and "folders_ready w (map (\<lambda>(k, p). strip p) xs)"
  shows "plugins (snd (loadPlugins (map JObject (map (\<lambda>(k, p). strip p) xs)) w))
     = plugins w @ map (\<lambda>(k, p). (k, reload p)) (filter (\<lambda>(k, p). \<not> toUninstall p) xs)"
  using assms
proof (induction xs arbitrary: w)
  case Nil
  then show ?case by simp
next
  case (Cons x xs)
  obtain k p where x: "x = (k, p)" by (cases x)
  from Cons.prems x have nk: "name p = k" and fresh: "k \<notin> fst ` set (plugins w)"
    and d: "distinct (map fst xs)" and kx: "k \<notin> fst ` set xs"
    and al: "list_all (\<lambda>(k, p). name p = k) xs"
    and disj: "fst ` set xs \<inter> fst ` set (plugins w) = {}"
    and np: "k \<noteq> ''__proto__''" and npx: "''__proto__'' \<notin> fst ` set xs"
    and ready: "folders_ready w (strip p # map (\<lambda>(k, p). strip p) xs)"
    by auto
  show ?case
  proof (cases "toUninstall p")
    case True
    then have m: "e_toUninstall (strip p)" by (simp add: strip_def)
    define w1 where "w1 = snd (rmdirSync_recursive (resolve (cwd w) (pluginsPath w) (e_name (strip p))) w)"
    from folders_ready_marked [OF ready m]
    have inF: "resolve (cwd w) (pluginsPath w) (e_name (strip p)) \<in> set (folders w)"
      and r1: "folders_ready w1 (map (\<lambda>(k, p). strip p) xs)"
      by (simp_all add: w1_def)
    have step: "loadPlugin (JObject (strip p)) w = (Inr (), w1)"
      using m inF unfolding w1_def by (rule loadPlugin_marked_present)
    have p1: "plugins w1 = plugins w"
      by (simp add: w1_def plugins_rmdirSync_recursive)
    from disj p1 have "fst ` set xs \<inter> fst ` set (plugins w1) = {}" by simp
    from Cons.IH [OF d al this npx r1] p1 True x show ?thesis
      by (simp add: step del: loadPlugin.simps)
  next
    case False
    then have m: "\<not> e_toUninstall (strip p)" by (simp add: strip_def)
    define w1 where "w1 = addPlugin (revive (strip p)) False w"
    from folders_ready_unmarked [OF ready m]
    have r1: "folders_ready w1 (map (\<lambda>(k, p). strip p) xs)" by (simp add: w1_def)
    have step: "loadPlugin (JObject (strip p)) w = (Inr (), w1)"
      using m by (simp add: w1_def)
    have p1: "plugins w1 = plugins w @ [(k, reload p)]"
      using fresh nk np False
      by (simp add: w1_def plugins_addPlugin revive_def strip_def Plugin_new_def subscribe_def
          reload_def js_assign_plain update_fresh)
    then have "fst ` set xs \<inter> fst ` set (plugins w1) = {}"
      using disj kx by auto
    from Cons.IH [OF d al this npx r1] p1 False x show ?thesis
      by (simp add: step del: loadPlugin.simps)
  qed
qed

lemma persisted_entries:
  "map snd (map (\<lambda>(nm, e). (nm, JObject e)) (persistData w))
     = map JObject (map (\<lambda>(k, p). strip p) (plugins w))"
  by (simp add: persistData_def split_def comp_def)

subsection \<open>One entry\<close>

lemma resolve_p_gone: "resolve ''/'' ''/p'' ''gone'' = ''/p/gone''"
  by (simp add: resolve_def)

lemma resolve_p_foo: "resolve ''/'' ''/p'' ''foo'' = ''/p/foo''"
  by (simp add: resolve_def)




section \<open>Load as a whole\<close>

lemma folders_ready_same:
  "cwd w1 = cwd w \<Longrightarrow> pluginsPath w1 = pluginsPath w \<Longrightarrow> folders w1 = folders w \<Longrightarrow>
   folders_ready w1 es = folders_ready w es"
  by (simp add: folders_ready_def marked_folders_def)

text \<open>
  Claim C3, as the code has it: when an entry of the registry file cannot be rebuilt
  (here: it is \<^verbatim>\<open>null\<close>) and the entries before it can (the folders they ask to remove are
  there), \<^verbatim>\<open>usePlugins\<close> throws the one descriptive error and skips the final write of the
  registry file, but nothing is rolled back: the registry is the one the entries before
  the failing one have built, so every such entry that is not marked for removal (and
  not named \<^verbatim>\<open>__proto__\<close>) is registered, and the folders of the marked ones are gone.
\<close>

theorem usePlugins_failure_no_rollback:
  assumes "pp \<noteq> []"
    and "files w (pp @ ''/plugins.json'')
      = Some (Json (map (\<lambda>(k, e). (k, JObject e)) pre @ (k, JNull) # post))"
    and "folders_ready (setPluginsPath pp w) (map snd pre)"
  shows "fst (usePlugins pp w) = Inl LoadCorrupted
    \<and> written (snd (usePlugins pp w)) = written w
    \<and> plugins (snd (usePlugins pp w))
        = plugins (snd (loadPlugins (map JObject (map snd pre))
            (removePlugins (getAllPlugins w) (setPluginsPath pp w))))
    \<and> {e_name e | e. e \<in> snd ` set pre \<and> \<not> e_toUninstall e \<and> e_name e \<noteq> ''__proto__''}
        \<subseteq> fst ` set (plugins (snd (usePlugins pp w)))
    \<and> folders (snd (usePlugins pp w))
        = filter (\<lambda>q. list_all (\<lambda>f. \<not> beneath f q) (marked_folders (setPluginsPath pp w) (map snd pre)))
            (folders w)"
proof -
  define w1 where "w1 = setPluginsPath pp w"
  define w2 where "w2 = removePlugins (getAllPlugins w1) w1"
  define es where "es = map snd pre"
  define w3 where "w3 = snd (loadPlugins (map JObject es) w2)"
  have g: "getAllPlugins w1 = getAllPlugins w"
    by (simp add: w1_def getAllPlugins_def setPluginsPath_def)
  have f2: "files w2 = files w" and p2: "pluginsPath w2 = pp" and wr2: "written w2 = written w"
    and fo2: "folders w2 = folders w" and c2: "cwd w2 = cwd w"
    using removePlugins_frame [of "getAllPlugins w1" w1]
    by (simp_all add: w2_def w1_def setPluginsPath_def)
  have same: "cwd w2 = cwd w1" "pluginsPath w2 = pluginsPath w1" "folders w2 = folders w1"
    by (simp_all add: c2 p2 fo2) (simp_all add: w1_def setPluginsPath_def)
  have ready: "folders_ready w2 es"
    using assms(3) folders_ready_same [OF same, of es] by (simp add: w1_def es_def)
  have mf: "marked_folders w2 es = marked_folders w1 es"
    using same(1,2) by (rule marked_folders_same)
  have entries: "map snd (map (\<lambda>(k, e). (k, JObject e)) pre @ (k, JNull) # post)
      = map JObject es @ JNull # map snd post"
    by (simp add: es_def split_def comp_def)
  have fl: "files w2 (getPluginsFile w2)
      = Some (Json (map (\<lambda>(k, e). (k, JObject e)) pre @ (k, JNull) # post))"
    using assms(2) by (simp add: f2 p2 getPluginsFile_def)
  have ok: "fst (loadPlugins (map JObject es) w2) = Inr ()"
    using ready by (rule loadPlugins_ready)
  have "loadPlugins (map JObject es @ JNull # map snd post) w2 = loadPlugins (JNull # map snd post) w3"
    using loadPlugins_append [OF ok, of "JNull # map snd post"] by (simp add: w3_def)
  then have l: "loadPlugins (map snd (map (\<lambda>(k, e). (k, JObject e)) pre @ (k, JNull) # post)) w2
      = (Inl TypeError, w3)"
    by (simp only: entries) simp
  have u: "usePlugins pp w = (Inl LoadCorrupted, w3)"
    using assms(1) fl l
    by (simp add: usePlugins_def Let_def w1_def [symmetric] w2_def [symmetric] del: map_append)
  have wr3: "written w3 = written w"
    using loadPlugins_frame [of "map JObject es" w2] by (simp add: w3_def wr2)
  have "fst ` set (plugins w2) \<union> {e_name e | e. e \<in> set es \<and> \<not> e_toUninstall e \<and> e_name e \<noteq> ''__proto__''}
      \<subseteq> fst ` set (plugins w3)"
    unfolding w3_def using ready by (rule loadPlugins_keys)
  then have sub: "{e_name e | e. e \<in> snd ` set pre \<and> \<not> e_toUninstall e \<and> e_name e \<noteq> ''__proto__''}
      \<subseteq> fst ` set (plugins w3)"
    by (auto simp add: es_def)
  have fo3: "folders w3 = filter (\<lambda>q. list_all (\<lambda>f. \<not> beneath f q) (marked_folders w1 es)) (folders w)"
    unfolding w3_def using loadPlugins_folders [OF ready] by (simp add: mf fo2)
  have w3: "w3 = snd (loadPlugins (map JObject (map snd pre))
      (removePlugins (getAllPlugins w) (setPluginsPath pp w)))"
    apply (simp only: w3_def w2_def g es_def)
    apply (simp only: w1_def)
    done
  have p3: "plugins w3 = plugins (snd (loadPlugins (map JObject (map snd pre))
      (removePlugins (getAllPlugins w) (setPluginsPath pp w))))"
    by (simp only: w3)
  from u wr3 sub fo3 p3 show ?thesis
    by (simp add: w1_def es_def)
qed

theorem usePlugins_failure_no_rollback_witness:
  "folders_ready (setPluginsPath ''/p'' corrupt_world) [entry_gone, entry_a]
    \<and> fst (usePlugins ''/p'' corrupt_world) = Inl LoadCorrupted
    \<and> written (snd (usePlugins ''/p'' corrupt_world)) = []
    \<and> ''a'' \<in> fst ` set (plugins (snd (usePlugins ''/p'' corrupt_world)))
    \<and> folders (snd (usePlugins ''/p'' corrupt_world)) = [''/p'', ''/p/a'']"
proof -
  have 1: "''/p'' \<noteq> []" by simp
  have 2: "files corrupt_world (''/p'' @ ''/plugins.json'')
     = Some (Json (map (\<lambda>(k, e). (k, JObject e)) [(''gone'', entry_gone), (''a'', entry_a)]
         @ (''b'', JNull) # []))"
    by (simp add: corrupt_world_def)
  have mf: "marked_folders (setPluginsPath ''/p'' corrupt_world) [entry_gone, entry_a] = [''/p/gone'']"
    by (simp add: marked_folders_def setPluginsPath_def corrupt_world_def initial_world_def
        entry_gone_def entry_a_def resolve_p_gone)
  have fo: "folders corrupt_world = [''/p'', ''/p/gone'', ''/p/a'']"
    by (simp add: corrupt_world_def)
  have 3: "folders_ready (setPluginsPath ''/p'' corrupt_world) (map snd [(''gone'', entry_gone), (''a'', entry_a)])"
    by (simp add: folders_ready_def mf) (simp add: setPluginsPath_def fo)
  have 4: "written corrupt_world = []" by (simp add: corrupt_world_def initial_world_def)
  have 5: "''a'' \<in> {e_name e | e. e \<in> snd ` set [(''gone'', entry_gone), (''a'', entry_a)]
      \<and> \<not> e_toUninstall e \<and> e_name e \<noteq> ''__proto__''}"
    by (intro CollectI exI [of _ entry_a]) (simp add: entry_a_def)
  have 6: "filter (\<lambda>q. list_all (\<lambda>f. \<not> beneath f q) [''/p/gone'']) [''/p'', ''/p/gone'', ''/p/a'']
      = [''/p'', ''/p/a'']"
    by (simp add: beneath_def slashed_def)
  from usePlugins_failure_no_rollback [OF 1 2 3]
  have "fst (usePlugins ''/p'' corrupt_world) = Inl LoadCorrupted
    \<and> written (snd (usePlugins ''/p'' corrupt_world)) = written corrupt_world
    \<and> {e_name e | e. e \<in> snd ` set [(''gone'', entry_gone), (''a'', entry_a)]
          \<and> \<not> e_toUninstall e \<and> e_name e \<noteq> ''__proto__''}
        \<subseteq> fst ` set (plugins (snd (usePlugins ''/p'' corrupt_world)))
    \<and> folders (snd (usePlugins ''/p'' corrupt_world))
        = filter (\<lambda>q. list_all (\<lambda>f. \<not> beneath f q)
            (marked_folders (setPluginsPath ''/p'' corrupt_world) (map snd [(''gone'', entry_gone), (''a'', entry_a)])))
            (folders corrupt_world)"
    by blast
  with 3 4 5 6 mf fo show ?thesis
    by auto
qed

text \<open>
  Claim C3 as stated fails: after the failed load of a file whose third entry is
  \<^verbatim>\<open>null\<close>, the registry holds the record of the second entry (and the folder of the
  first, marked, entry is gone).
\<close>

theorem usePlugins_failure_leaves_partial_registry:
  "fst (usePlugins ''/p'' corrupt_world) = Inl LoadCorrupted
   \<and> map fst (plugins (snd (usePlugins ''/p'' corrupt_world))) = [''a'']"
  by (simp add: usePlugins_def corrupt_world_def initial_world_def setPluginsPath_def
      getAllPlugins_def getPluginsFile_def entry_a_def entry_gone_def resolve_p_gone
      rmdirSync_recursive_def Let_def beneath_def slashed_def plugins_addPlugin js_assign_def
      revive_def Plugin_new_def)

text \<open>
  Claim C2, as the code has it: for a registry as the operations build it and a plugins
  path that is set, \<^verbatim>\<open>persistPlugins\<close> writes name, source, active and the removal mark of
  every record (no listeners, no dependencies). When the folders of the marked records
  are there to be removed (and the registry file is in none of them), \<^verbatim>\<open>usePlugins\<close> on
  the same path then succeeds and rebuilds exactly the records that were not marked for
  removal, each with its name, source and active flag, unmarked, with the persistence
  callback as its only listener and no dependencies. Marked records are dropped and
  their folders removed.
\<close>

theorem persist_usePlugins_roundtrip:
  assumes "registry_ok w" and "pluginsPath w \<noteq> []"
    and "''__proto__'' \<notin> fst ` set (plugins w)"
    and "folders_ready w (map (\<lambda>(k, p). strip p) (plugins w))"
    and "list_all (\<lambda>f. \<not> beneath f (resolve (cwd w) (getPluginsFile w) []))
           (marked_folders w (map (\<lambda>(k, p). strip p) (plugins w)))"
  shows "files (persistPlugins w) (getPluginsFile w)
      = Some (Json (map (\<lambda>(k, p). (k, JObject \<lparr>e_name = name p, e_source = source p,
          e_active = active p, e_toUninstall = toUninstall p\<rparr>)) (plugins w)))
    \<and> fst (usePlugins (pluginsPath w) (persistPlugins w)) = Inr ()
    \<and> plugins (snd (usePlugins (pluginsPath w) (persistPlugins w)))
      = map (\<lambda>(k, p). (k, reload p)) (filter (\<lambda>(k, p). \<not> toUninstall p) (plugins w))
    \<and> folders (snd (usePlugins (pluginsPath w) (persistPlugins w)))
      = filter (\<lambda>q. list_all (\<lambda>f. \<not> beneath f q) (marked_folders w (map (\<lambda>(k, p). strip p) (plugins w))))
          (folders w)"
proof -
  define w' where "w' = persistPlugins w"
  define w2 where "w2 = removePlugins (getAllPlugins w') w'"
  define plgs where "plgs = map (\<lambda>(nm, e). (nm, JObject e)) (persistData w)"
  define es where "es = map (\<lambda>(k, p). strip p) (plugins w)"
  have pp: "pluginsPath w' = pluginsPath w" and pl: "plugins w' = plugins w"
    and fo: "folders w' = folders w" and cw: "cwd w' = cwd w"
    by (simp_all add: w'_def persistPlugins_def)
  have fl: "files w' (getPluginsFile w) = Some (Json plgs)"
    by (simp add: w'_def persistPlugins_def plgs_def)
  have 1: "files (persistPlugins w) (getPluginsFile w)
      = Some (Json (map (\<lambda>(k, p). (k, JObject \<lparr>e_name = name p, e_source = source p,
          e_active = active p, e_toUninstall = toUninstall p\<rparr>)) (plugins w)))"
    using fl by (simp add: w'_def plgs_def persistData_def strip_def split_def comp_def)
  have s: "setPluginsPath (pluginsPath w) w' = w'"
    using pp by (simp add: setPluginsPath_def)
  have "registry_ok w'" using assms(1) by (simp add: registry_ok_def pl)
  then have p2: "plugins w2 = []" by (simp add: w2_def removePlugins_clears)
  have f2: "files w2 = files w'" and pp2: "pluginsPath w2 = pluginsPath w"
    and fo2: "folders w2 = folders w" and cw2: "cwd w2 = cwd w"
    using removePlugins_frame [of "getAllPlugins w'" w'] by (simp_all add: w2_def pp fo cw)
  have fl2: "files w2 (getPluginsFile w2) = Some (Json plgs)"
    using fl by (simp add: f2 getPluginsFile_def pp2)
  have m: "map snd plgs = map JObject es"
    using persisted_entries [of w] by (simp add: plgs_def es_def)
  have ready: "folders_ready w2 es"
    using assms(4) folders_ready_same [OF cw2 pp2 fo2, of es] by (simp add: es_def)
  have mf: "marked_folders w2 es = marked_folders w es"
    using cw2 pp2 by (rule marked_folders_same)
  have ok: "fst (loadPlugins (map snd plgs) w2) = Inr ()"
    unfolding m using ready by (rule loadPlugins_ready)
  have "plugins (snd (loadPlugins (map JObject (map (\<lambda>(k, p). strip p) (plugins w))) w2))
     = plugins w2 @ map (\<lambda>(k, p). (k, reload p)) (filter (\<lambda>(k, p). \<not> toUninstall p) (plugins w))"
    using assms(1,3) ready
    by (intro loadPlugins_persisted) (simp_all add: registry_ok_def p2 es_def)
  then have p3: "plugins (snd (loadPlugins (map snd plgs) w2))
     = map (\<lambda>(k, p). (k, reload p)) (filter (\<lambda>(k, p). \<not> toUninstall p) (plugins w))"
    by (simp add: m p2 es_def)
  have fo3: "folders (snd (loadPlugins (map snd plgs) w2))
     = filter (\<lambda>q. list_all (\<lambda>f. \<not> beneath f q) (marked_folders w es)) (folders w)"
    unfolding m using loadPlugins_folders [OF ready] by (simp add: mf fo2)
  obtain r w3 where l: "loadPlugins (map snd plgs) w2 = (r, w3)"
    by (cases "loadPlugins (map snd plgs) w2")
  with ok have r: "r = Inr ()" by simp
  have u: "usePlugins (pluginsPath w) w' = (Inr (), persistPlugins w3)"
    using assms(2) fl2 l r by (simp add: usePlugins_def s w2_def [symmetric])
  have fo4: "folders (persistPlugins w3) = folders w3"
    by (simp add: persistPlugins_def)
  from u p3 fo3 fo4 l 1 show ?thesis
    by (simp add: w'_def [symmetric] es_def)
qed

theorem persist_usePlugins_roundtrip_witness:
  "registry_ok two_world \<and> pluginsPath two_world \<noteq> []
   \<and> ''__proto__'' \<notin> fst ` set (plugins two_world)
   \<and> folders_ready two_world (map (\<lambda>(k, p). strip p) (plugins two_world))
   \<and> fst (usePlugins ''/p'' (persistPlugins two_world)) = Inr ()
   \<and> plugins (snd (usePlugins ''/p'' (persistPlugins two_world)))
      = [(''a'', \<lparr>name = ''a'', source = ''./a'', active = True, toUninstall = False,
           listeners = [persistPlugins_cb], dependencies = []\<rparr>)]
   \<and> folders (snd (usePlugins ''/p'' (persistPlugins two_world))) = [''/p'', ''/p/a'']"
proof -
  have ok: "registry_ok two_world"
    by (simp add: registry_ok_def two_world_def marked_plugin_def plugin_a_def)
  have pp: "pluginsPath two_world \<noteq> []" "pluginsPath two_world = ''/p''"
    by (simp_all add: two_world_def)
  have np: "''__proto__'' \<notin> fst ` set (plugins two_world)"
    by (simp add: two_world_def)
  have mf: "marked_folders two_world (map (\<lambda>(k, p). strip p) (plugins two_world)) = [''/p/foo'']"
    by (simp add: marked_folders_def two_world_def initial_world_def strip_def marked_plugin_def
        plugin_a_def resolve_p_foo)
  have fo: "folders two_world = [''/p'', ''/p/foo'', ''/p/foo/dist'', ''/p/a'']"
    by (simp add: two_world_def)
  have ready: "folders_ready two_world (map (\<lambda>(k, p). strip p) (plugins two_world))"
    by (simp add: folders_ready_def mf) (simp add: fo)
  have regfile: "resolve (cwd two_world) (getPluginsFile two_world) [] = ''/p/plugins.json''"
    by (simp add: two_world_def initial_world_def getPluginsFile_def resolve_def)
  have apart: "list_all (\<lambda>f. \<not> beneath f (resolve (cwd two_world) (getPluginsFile two_world) []))
      (marked_folders two_world (map (\<lambda>(k, p). strip p) (plugins two_world)))"
    by (simp add: mf regfile beneath_def slashed_def)
  have recs: "map (\<lambda>(k, p). (k, reload p)) (filter (\<lambda>(k, p). \<not> toUninstall p) (plugins two_world))
      = [(''a'', \<lparr>name = ''a'', source = ''./a'', active = True, toUninstall = False,
           listeners = [persistPlugins_cb], dependencies = []\<rparr>)]"
    by (simp add: two_world_def marked_plugin_def plugin_a_def reload_def)
  have left: "filter (\<lambda>q. list_all (\<lambda>f. \<not> beneath f q) [''/p/foo''])
      [''/p'', ''/p/foo'', ''/p/foo/dist'', ''/p/a''] = [''/p'', ''/p/a'']"
    by (simp add: beneath_def slashed_def)
  from persist_usePlugins_roundtrip [OF ok pp(1) np ready apart]
  have "fst (usePlugins (pluginsPath two_world) (persistPlugins two_world)) = Inr ()
    \<and> plugins (snd (usePlugins (pluginsPath two_world) (persistPlugins two_world)))
      = map (\<lambda>(k, p). (k, reload p)) (filter (\<lambda>(k, p). \<not> toUninstall p) (plugins two_world))
    \<and> folders (snd (usePlugins (pluginsPath two_world) (persistPlugins two_world)))
      = filter (\<lambda>q. list_all (\<lambda>f. \<not> beneath f q)
          (marked_folders two_world (map (\<lambda>(k, p). strip p) (plugins two_world)))) (folders two_world)"
    by blast
  then have "fst (usePlugins ''/p'' (persistPlugins two_world)) = Inr ()
    \<and> plugins (snd (usePlugins ''/p'' (persistPlugins two_world)))
      = [(''a'', \<lparr>name = ''a'', source = ''./a'', active = True, toUninstall = False,
           listeners = [persistPlugins_cb], dependencies = []\<rparr>)]
    \<and> folders (snd (usePlugins ''/p'' (persistPlugins two_world))) = [''/p'', ''/p/a'']"
    by (simp only: pp(2) recs mf fo left)
  with ok pp(1) np ready show ?thesis by blast
qed

text \<open>
  Claim C2 as stated fails: a registry whose only record is marked for removal (its
  folder on disk) is empty after persist and a load that succeeds, so the names are not
  the same.
\<close>

theorem persist_usePlugins_drops_marked:
  "map fst (plugins disk_world) = [''foo'']
   \<and> fst (usePlugins ''/p'' (persistPlugins disk_world)) = Inr ()
   \<and> map fst (plugins (snd (usePlugins ''/p'' (persistPlugins disk_world)))) = []"
  by (simp add: disk_world_def marked_plugin_def initial_world_def
      usePlugins_def persistPlugins_def persistData_def setPluginsPath_def getAllPlugins_def
      getPluginsFile_def removePlugin_def js_delete_def strip_def resolve_p_foo
      rmdirSync_recursive_def Let_def beneath_def slashed_def)

section \<open>Serving plugin files\<close>

lemma split_sep_nonempty: "split_sep s \<noteq> []"
  by (induction s) (auto split: list.splits)

lemma split_sep_no_slash: "seg \<in> set (split_sep s) \<Longrightarrow> CHR ''/'' \<notin> set seg"
proof (induction s arbitrary: seg)
  case Nil
  then show ?case by simp
next
  case (Cons c cs)
  then show ?case
    by (cases "split_sep cs") (auto simp add: split_sep_nonempty split: if_splits)
qed

lemma split_sep_snoc: "split_sep (s @ ''/'') = split_sep s @ [[]]"
proof (induction s)
  case Nil
  then show ?case by simp
next
  case (Cons c cs)
  then show ?case
    by (cases "split_sep cs") (auto simp add: split_sep_nonempty)
qed

lemma split_sep_segment: "CHR ''/'' \<notin> set seg \<Longrightarrow> split_sep seg = [seg]"
  by (induction seg) auto

lemma split_sep_segment_rest:
  "CHR ''/'' \<notin> set seg \<Longrightarrow> split_sep (seg @ CHR ''/'' # rest) = seg # split_sep rest"
  by (induction seg) auto

lemma split_sep_join_sep:
  "segs \<noteq> [] \<Longrightarrow> \<forall>seg \<in> set segs. CHR ''/'' \<notin> set seg \<Longrightarrow> split_sep (join_sep segs) = segs"
proof (induction segs rule: join_sep.induct)
  case 1
  then show ?case by simp
next
  case (2 seg)
  then show ?case by (simp add: split_sep_segment)
next
  case (3 seg v va)
  then show ?case by (simp add: split_sep_segment_rest)
qed

lemma normalizeString_segments:
  "\<forall>seg \<in> set res. P seg \<Longrightarrow> \<forall>seg \<in> set segs. seg \<noteq> ''..'' \<longrightarrow> P seg \<Longrightarrow>
   \<forall>seg \<in> set (normalizeString False res segs). P seg"
proof (induction segs arbitrary: res)
  case Nil
  then show ?case by simp
next
  case (Cons seg segs)
  from Cons.prems(2) have rest: "\<forall>s \<in> set segs. s \<noteq> ''..'' \<longrightarrow> P s" by simp
  have keep: "\<forall>s \<in> set (normalizeString False res segs). P s"
    using Cons.prems(1) rest by (rule Cons.IH)
  have "\<forall>s \<in> set (butlast res). P s"
    using Cons.prems(1) by (meson in_set_butlastD)
  then have pop: "\<forall>s \<in> set (normalizeString False (butlast res) segs). P s"
    using rest by (rule Cons.IH)
  show ?case
  proof (cases "seg = [] \<or> seg = ''.''")
    case True
    with keep show ?thesis by auto
  next
    case False
    note plain = this
    show ?thesis
    proof (cases "seg = ''..''")
      case True
      with keep pop show ?thesis by simp
    next
      case False
      with Cons.prems have "\<forall>s \<in> set (res @ [seg]). P s" by simp
      then have "\<forall>s \<in> set (normalizeString False (res @ [seg]) segs). P s"
        using rest by (rule Cons.IH)
      with False plain show ?thesis by simp
    qed
  qed
qed

lemma normalize_path_absolute:
  assumes "p \<noteq> []" and "hd p = CHR ''/''"
  shows "''..'' \<notin> set (split_sep (normalize_path p))"
proof -
  define segs where "segs = normalizeString False [] (split_sep p)"
  have segs: "\<forall>seg \<in> set segs. seg \<noteq> ''..'' \<and> CHR ''/'' \<notin> set seg"
    unfolding segs_def
    by (rule normalizeString_segments) (auto dest: split_sep_no_slash)
  show ?thesis
  proof (cases "join_sep segs = []")
    case True
    with assms show ?thesis by (simp add: normalize_path_def segs_def [symmetric])
  next
    case False
    then have ne: "segs \<noteq> []" by auto
    with segs have sj: "split_sep (join_sep segs) = segs"
      by (simp add: split_sep_join_sep)
    from segs have "''..'' \<notin> set segs" by auto
    with False assms sj show ?thesis
      by (simp add: normalize_path_def segs_def [symmetric] Let_def split_sep_snoc)
  qed
qed

text \<open>
  Claim C4, as the code has it: the handler never refuses a request. For every URL it
  answers with the path \<^verbatim>\<open>normalize(pluginsPath + url.substr(8))\<close>. Parent-directory
  segments are resolved as text (under an absolute plugins path the answer has no
  segment \<^verbatim>\<open>..\<close> left), and nothing compares the answer with the plugins root.
\<close>

theorem handler_never_rejects:
  "registerPluginProtocol_handler root request_url = Inr (normalize_path (root @ drop 8 request_url))
   \<and> (root \<noteq> [] \<and> hd root = CHR ''/'' \<longrightarrow>
        (\<exists>p. registerPluginProtocol_handler root request_url = Inr p \<and> ''..'' \<notin> set (split_sep p)))"
proof -
  have 1: "registerPluginProtocol_handler root request_url = Inr (normalize_path (root @ drop 8 request_url))"
    by (simp add: registerPluginProtocol_handler_def)
  have 2: "''..'' \<notin> set (split_sep (normalize_path (root @ drop 8 request_url)))"
    if "root \<noteq> [] \<and> hd root = CHR ''/''"
  proof -
    from that have "root @ drop 8 request_url \<noteq> []"
      and "hd (root @ drop 8 request_url) = CHR ''/''" by simp_all
    then show ?thesis by (rule normalize_path_absolute)
  qed
  from 1 2 show ?thesis by blast
qed

theorem handler_never_rejects_witness:
  "''/app/plugins'' \<noteq> [] \<and> hd ''/app/plugins'' = CHR ''/''
   \<and> registerPluginProtocol_handler ''/app/plugins'' ''plugin://foo/../bar/index.js'' = Inr ''/app/plugins/bar/index.js''
   \<and> ''..'' \<notin> set (split_sep ''/app/plugins/bar/index.js'')"
proof -
  have e: "registerPluginProtocol_handler ''/app/plugins'' ''plugin://foo/../bar/index.js'' = Inr ''/app/plugins/bar/index.js''"
    by (simp add: registerPluginProtocol_handler_def normalize_path_def)
  have a: "''/app/plugins'' \<noteq> [] \<and> hd ''/app/plugins'' = CHR ''/''" by simp
  with handler_never_rejects [of "''/app/plugins''" "''plugin://foo/../bar/index.js''"]
  obtain p where "registerPluginProtocol_handler ''/app/plugins'' ''plugin://foo/../bar/index.js'' = Inr p"
    and "''..'' \<notin> set (split_sep p)" by blast
  with e have "''..'' \<notin> set (split_sep ''/app/plugins/bar/index.js'')" by simp
  with a e show ?thesis by blast
qed

text \<open>
  Claim C4 as stated fails: a request with two parent-directory segments is answered
  with a path outside the plugins root \<^verbatim>\<open>/app/plugins\<close>, not refused.
\<close>

theorem handler_leaves_plugins_root:
  "registerPluginProtocol_handler ''/app/plugins'' ''plugin://../../etc/passwd'' = Inr ''/etc/passwd''"
  by (simp add: registerPluginProtocol_handler_def normalize_path_def)

section \<open>Installing\<close>

text \<open>
  Whatever the install step is, \<^verbatim>\<open>installPlugin\<close> fails exactly when it throws, with its
  error and in the state it left; \<^verbatim>\<open>installPlugin\<close> never reads \<^verbatim>\<open>confirmInstall\<close> itself.
\<close>

lemma installPlugin_follows_install_step:
  "(\<forall>err w1. install_step spec options w = (Inl err, w1) \<longrightarrow>
      installPlugin install_step spec options store w = (Inl err, w1))
   \<and> (\<forall>plugin w1. install_step spec options w = (Inr plugin, w1) \<longrightarrow>
      installPlugin install_step spec options True w
        = (Inr (subscribe persistPlugins_cb plugin), addPlugin plugin True w1)
      \<and> installPlugin install_step spec options False w = (Inr plugin, w1))"
  by (simp add: installPlugin_def)

lemma installPlugin_confirmed:
  assumes "confirmInstall w spec = Proceed True" and "fetch spec options = Some nm"
    and "nm \<noteq> ''__proto__''"
  shows "map_of (plugins (snd (installPlugin (Plugin_install fetch) spec options True w))) nm
    = Some \<lparr>name = nm, source = spec, active = False, toUninstall = False,
        listeners = [persistPlugins_cb], dependencies = []\<rparr>"
  using assms
  by (simp add: installPlugin_def Plugin_install_def plugins_addPlugin js_assign_plain update_conv'
      Plugin_new_def subscribe_def)

text \<open>
  Claim C5, with the install step of the class \<^verbatim>\<open>Plugin\<close> as the spec describes it (the
  class is not among the sources) and \<^verbatim>\<open>installPlugin\<close> as the store has it: when the
  confirmer was never set, every call of \<^verbatim>\<open>installPlugin\<close> fails with the error of the
  unset confirmer and leaves the state, so the registry, as it was; when the confirmer
  returns false for the specifier, the call fails with InstallRejected and leaves the
  state as it was. \<^verbatim>\<open>installPlugin\<close> itself passes the throw on and reaches \<^verbatim>\<open>addPlugin\<close>
  only after the install step has returned.
\<close>

theorem installPlugin_confirmer_gates:
  "(confirmInstall w = confirmInstall_default \<longrightarrow>
      installPlugin (Plugin_install fetch) spec options store w = (Inl NotConfigured, w)
      \<and> plugins (snd (installPlugin (Plugin_install fetch) spec options store w)) = plugins w)
   \<and> (confirmInstall w spec = Proceed False \<longrightarrow>
      installPlugin (Plugin_install fetch) spec options store w = (Inl InstallRejected, w)
      \<and> plugins (snd (installPlugin (Plugin_install fetch) spec options store w)) = plugins w)"
  by (simp add: installPlugin_def Plugin_install_def confirmInstall_default_def NotConfigured_def)

theorem installPlugin_confirmer_gates_witness:
  "confirmInstall initial_world = confirmInstall_default
   \<and> installPlugin (Plugin_install fetch_by_name) ''foo'' () True initial_world
       = (Inl NotConfigured, initial_world)
   \<and> confirmInstall (setConfirmInstall reject_all initial_world) ''foo'' = Proceed False
   \<and> installPlugin (Plugin_install fetch_by_name) ''foo'' () True
         (setConfirmInstall reject_all initial_world)
       = (Inl InstallRejected, setConfirmInstall reject_all initial_world)
   \<and> plugins (snd (installPlugin (Plugin_install fetch_by_name) ''foo'' () True
         (setConfirmInstall reject_all initial_world))) = []"
proof -
  have unset: "confirmInstall initial_world = confirmInstall_default"
    by (simp add: initial_world_def)
  have refused: "confirmInstall (setConfirmInstall reject_all initial_world) ''foo'' = Proceed False"
    by (simp add: setConfirmInstall_def reject_all_def)
  have empty: "plugins (setConfirmInstall reject_all initial_world) = []"
    by (simp add: setConfirmInstall_def initial_world_def)
  from installPlugin_confirmer_gates [of initial_world fetch_by_name "''foo''" "()" True] unset
  have 1: "installPlugin (Plugin_install fetch_by_name) ''foo'' () True initial_world
       = (Inl NotConfigured, initial_world)"
    by blast
  from installPlugin_confirmer_gates
    [of "setConfirmInstall reject_all initial_world" fetch_by_name "''foo''" "()" True] refused
  have 2: "installPlugin (Plugin_install fetch_by_name) ''foo'' () True
         (setConfirmInstall reject_all initial_world)
       = (Inl InstallRejected, setConfirmInstall reject_all initial_world)
     \<and> plugins (snd (installPlugin (Plugin_install fetch_by_name) ''foo'' () True
         (setConfirmInstall reject_all initial_world)))
       = plugins (setConfirmInstall reject_all initial_world)"
    by blast
  from unset refused 1 2 empty show ?thesis by simp
qed

end
